theory Spec2Isabelle
  imports Main "HOL-Library.Word"
begin

unbundle bit_operations_syntax

section \<open>Key generation and signing in \<^verbatim>\<open>ed25519/generator.c\<close>\<close>

text \<open>
  The file defines four functions: \<^verbatim>\<open>SHA256_hash\<close>, \<^verbatim>\<open>createPrivateKey\<close>,
  \<^verbatim>\<open>createPublicKey\<close> and \<^verbatim>\<open>Sign\<close>. They call a hash (\<^verbatim>\<open>keccak\<close>), the curve
  arithmetic of the ed25519 library (\<^verbatim>\<open>ge_scalarmult_base\<close>, \<^verbatim>\<open>ge_p3_tobytes\<close>,
  \<^verbatim>\<open>sc_reduce\<close>, \<^verbatim>\<open>sc_muladd\<close>) and the C library (\<^verbatim>\<open>sprintf\<close>, \<^verbatim>\<open>sscanf\<close>,
  \<^verbatim>\<open>memcpy\<close>). The library functions are parameters of the model; what the C library
  does with the two format strings the file uses is written out below.

  A byte array is a list of 8-bit words, a character array a list of characters. A
  pointer with a length (\<^verbatim>\<open>data\<close>, \<^verbatim>\<open>dataSize\<close>) is the list of the bytes it
  designates. A function that writes through a pointer takes the array as it was and
  returns it as it is afterwards.
\<close>

type_synonym byte = "8 word"

subsection \<open>The size constants\<close>

definition privateKeyPartSize :: nat where "privateKeyPartSize = 32"
definition signaturePartRAM :: nat where "signaturePartRAM = 32"
definition privateKeySize :: nat where "privateKeySize = 64"
definition publicKeySize :: nat where "publicKeySize = 32"
definition signatureSize :: nat where "signatureSize = 64"
definition seedSize :: nat where "seedSize = 32"
definition hash_512_Size :: nat where "hash_512_Size = 64"
definition hash_256_Size :: nat where "hash_256_Size = 32"

subsection \<open>The library functions the file calls\<close>

text \<open>
  \<^item> \<open>keccak cs input mdlen\<close> is the digest that
    \<^verbatim>\<open>keccak(in, inlen, md, mdlen)\<close> leaves in \<^verbatim>\<open>md\<close>;
  \<^item> \<open>ge_scalarmult_base cs a\<close> is the point computed from the 32 bytes at \<^verbatim>\<open>a\<close>;
  \<^item> \<open>ge_p3_tobytes cs p\<close> is the encoding of a point;
  \<^item> \<open>sc_reduce cs s\<close> is the scalar that \<^verbatim>\<open>sc_reduce(s)\<close> leaves in the first
    32 bytes of the 64-byte array \<^verbatim>\<open>s\<close>;
  \<^item> \<open>sc_muladd cs a b c\<close> is the scalar that \<^verbatim>\<open>sc_muladd(s, a, b, c)\<close> leaves
    in \<^verbatim>\<open>s\<close>, each argument being the 32 bytes at its pointer.
\<close>

record 'p collaborators =
  keccak :: "byte list \<Rightarrow> nat \<Rightarrow> byte list"
  ge_scalarmult_base :: "byte list \<Rightarrow> 'p"
  ge_p3_tobytes :: "'p \<Rightarrow> byte list"
  sc_reduce :: "byte list \<Rightarrow> byte list"
  sc_muladd :: "byte list \<Rightarrow> byte list \<Rightarrow> byte list \<Rightarrow> byte list"

text \<open>
  The sizes of what the library functions write: a digest of \<open>mdlen\<close> bytes, an
  encoded point of 32 bytes, scalars of 32 bytes.
\<close>

definition sizes_respected :: "'p collaborators \<Rightarrow> bool" where
  "sizes_respected cs \<longleftrightarrow>
     (\<forall>input mdlen. length (keccak cs input mdlen) = mdlen) \<and>
     (\<forall>p. length (ge_p3_tobytes cs p) = 32) \<and>
     (\<forall>s. length (sc_reduce cs s) = 32) \<and>
     (\<forall>a b c. length (sc_muladd cs a b c) = 32)"

subsection \<open>The C library: \<^verbatim>\<open>sprintf\<close>, \<^verbatim>\<open>sscanf\<close>, \<^verbatim>\<open>memcpy\<close>\<close>

definition NUL :: char where "NUL = CHR 0x00"

definition hex_digit :: "nat \<Rightarrow> char" where
  "hex_digit d = ''0123456789abcdef'' ! d"

text \<open>
  \<^verbatim>\<open>sprintf(p, "%02x", b)\<close> with \<^verbatim>\<open>b\<close> an unsigned char writes three characters:
  the two lowercase digits of \<^verbatim>\<open>b\<close> and the terminator.
\<close>

definition sprintf_02x :: "byte \<Rightarrow> char list" where
  "sprintf_02x b = [hex_digit (unat b div 16), hex_digit (unat b mod 16), NUL]"

text \<open>
  Writing the items \<open>xs\<close> into an array from index \<open>k\<close> on (\<^verbatim>\<open>memcpy\<close>, and the
  characters of \<^verbatim>\<open>sprintf\<close>). It is used for the arrays of the caller, whose sizes
  the file does not know: the list is as long as the caller's array, and the items
  written behind its end show as further cells.
\<close>

definition store_at :: "'a list \<Rightarrow> nat \<Rightarrow> 'a list \<Rightarrow> 'a list" where
  "store_at buf k xs = take k buf @ xs @ drop (k + length xs) buf"

text \<open>
  An array declared in the file has a known size: a write that runs past its end is a
  fault (the behaviour is undefined in C), reported with the index of the first cell
  outside the array.
\<close>

datatype fault = Out_of_bounds nat

definition store_local :: "'a list \<Rightarrow> nat \<Rightarrow> 'a list \<Rightarrow> fault + 'a list" where
  "store_local buf k xs =
     (if k + length xs \<le> length buf then Inr (store_at buf k xs)
      else Inl (Out_of_bounds (max k (length buf))))"

text \<open>The characters of a character array up to its terminator.\<close>

definition c_string :: "char list \<Rightarrow> string" where
  "c_string buf = takeWhile (\<lambda>c. c \<noteq> NUL) buf"

definition xdigit_value :: "char \<Rightarrow> nat option" where
  "xdigit_value c =
     (let k = (of_char c :: nat) in
      if 48 \<le> k \<and> k \<le> 57 then Some (k - 48)
      else if 97 \<le> k \<and> k \<le> 102 then Some (k - 87)
      else if 65 \<le> k \<and> k \<le> 70 then Some (k - 55)
      else None)"

definition isspace_c :: "char \<Rightarrow> bool" where
  "isspace_c c \<longleftrightarrow> (of_char c :: nat) \<in> {9, 10, 11, 12, 13, 32}"

text \<open>
  \<^verbatim>\<open>sscanf(s, "%02x", &value)\<close>: white space is skipped, then an input item of at
  most two characters is read: an optional sign and hexadecimal digits (a \<^verbatim>\<open>0x\<close>
  that fills the width counts as the digit 0). The result is the number stored in
  \<^verbatim>\<open>value\<close>, or \<open>None\<close> when nothing matches (or the string has ended) and
  \<^verbatim>\<open>value\<close> is left as it was. The string is the list of the characters before its
  terminator.
\<close>

definition scan_item :: "string \<Rightarrow> int option" where
  "scan_item s =
     (case s of
        [] \<Rightarrow> None
      | c # rest \<Rightarrow>
          if c = CHR ''+'' \<or> c = CHR ''-'' then
            (case rest of
               [] \<Rightarrow> None
             | d # _ \<Rightarrow>
                 (case xdigit_value d of
                    None \<Rightarrow> None
                  | Some v \<Rightarrow> Some (if c = CHR ''-'' then - int v else int v)))
          else
            (case xdigit_value c of
               None \<Rightarrow> None
             | Some v1 \<Rightarrow>
                 (case rest of
                    [] \<Rightarrow> Some (int v1)
                  | d # _ \<Rightarrow>
                      (case xdigit_value d of
                         None \<Rightarrow> Some (int v1)
                       | Some v2 \<Rightarrow> Some (int (16 * v1 + v2))))))"

definition sscanf_02x :: "string \<Rightarrow> int option" where
  "sscanf_02x s = scan_item (dropWhile isspace_c s)"

subsection \<open>The loops of the file\<close>

text \<open>
  The loop that prints a byte array in hexadecimal, in \<^verbatim>\<open>SHA256_hash\<close>,
  \<^verbatim>\<open>createPrivateKey\<close> and \<^verbatim>\<open>createPublicKey\<close>:
  \<^verbatim>\<open>for (i = 0; i < n; i++) sprintf(&out[i * 2], "%02x", src[i]);\<close>
\<close>

definition sprintf_loop :: "nat \<Rightarrow> byte list \<Rightarrow> char list \<Rightarrow> char list" where
  "sprintf_loop n src out =
     fold (\<lambda>i buf. store_at buf (i * 2) (sprintf_02x (src ! i))) [0..<n] out"

text \<open>
  The same loop on an array declared in the file: it stops at the first write that
  runs past the end of the array.
\<close>

definition sprintf_loop_local :: "nat \<Rightarrow> byte list \<Rightarrow> char list \<Rightarrow> fault + char list" where
  "sprintf_loop_local n src buf =
     fold (\<lambda>i acc. case acc of
                     Inl e \<Rightarrow> Inl e
                   | Inr b \<Rightarrow> store_local b (i * 2) (sprintf_02x (src ! i)))
       [0..<n] (Inr buf)"

text \<open>
  The body of the loops that read a key text, in \<^verbatim>\<open>createPublicKey\<close> and
  \<^verbatim>\<open>Sign\<close>:
  \<^verbatim>\<open>int value; sscanf(text + 2 * i, "%02x", &value); bytes[...] = value;\<close>
  The result of \<^verbatim>\<open>sscanf\<close> is not looked at, and \<^verbatim>\<open>value\<close> has no initial value:
  \<open>v\<close> is what the variable holds when \<^verbatim>\<open>sscanf\<close> stores nothing. The
  assignment to an unsigned char keeps the low eight bits. Where \<open>2 * i\<close> lies
  behind the terminator of the text the C code reads outside the string; the model
  is meant for texts of at least 62 characters, where this does not happen, and sees
  the empty string otherwise.
\<close>

definition scan_value :: "int \<Rightarrow> string \<Rightarrow> nat \<Rightarrow> byte" where
  "scan_value v text i =
     word_of_int (case sscanf_02x (drop (2 * i) text) of Some x \<Rightarrow> x | None \<Rightarrow> v)"

text \<open>
  The loop over the private key text stores pair \<open>i\<close> at index \<open>n - 1 - i\<close>, the loop
  over the public key text at index \<open>i\<close>. \<open>u i\<close> is what \<^verbatim>\<open>value\<close> holds in
  round \<open>i\<close> before \<^verbatim>\<open>sscanf\<close> is called.
\<close>

definition scan_reversed :: "(nat \<Rightarrow> int) \<Rightarrow> nat \<Rightarrow> string \<Rightarrow> byte list \<Rightarrow> byte list" where
  "scan_reversed u n text bytes =
     fold (\<lambda>i b. b[n - 1 - i := scan_value (u i) text i]) [0..<n] bytes"

definition scan_forward :: "(nat \<Rightarrow> int) \<Rightarrow> nat \<Rightarrow> string \<Rightarrow> byte list \<Rightarrow> byte list" where
  "scan_forward u n text bytes =
     fold (\<lambda>i b. b[i := scan_value (u i) text i]) [0..<n] bytes"

text \<open>
  The three assignments \<^verbatim>\<open>h[0] &= 248; h[31] &= 127; h[31] |= 64;\<close>
\<close>

definition clamp_in_place :: "byte list \<Rightarrow> byte list" where
  "clamp_in_place h =
     (let h1 = h[0 := h ! 0 AND 248];
          h2 = h1[31 := h1 ! 31 AND 127];
          h3 = h2[31 := h2 ! 31 OR 64]
      in h3)"

subsection \<open>\<^verbatim>\<open>SHA256_hash\<close>\<close>

definition SHA256_hash :: "'p collaborators \<Rightarrow> char list \<Rightarrow> byte list \<Rightarrow> char list" where
  "SHA256_hash cs out input =
     (let md = keccak cs input hash_256_Size
      in sprintf_loop hash_256_Size md out)"

subsection \<open>\<^verbatim>\<open>createPrivateKey\<close>\<close>

text \<open>
  \<open>seed\<close> is what \<^verbatim>\<open>ed25519_create_seed\<close> has put into the array \<^verbatim>\<open>seed\<close>.
  The local array \<^verbatim>\<open>converted_private_key\<close> is declared with
  \<^verbatim>\<open>privateKeySize\<close> = 64 cells, and the loop prints 32 bytes into it, each with
  two digits and a terminator. Every cell is written before it is read, so the model
  starts the array with terminators. When the loop has run, the copy loop stores the 64
  cells of the array into \<^verbatim>\<open>out_private_key\<close>.
\<close>

definition createPrivateKey ::
  "'p collaborators \<Rightarrow> byte list \<Rightarrow> char list \<Rightarrow> fault + char list" where
  "createPrivateKey cs seed out_private_key =
     (let private_key = keccak cs (take seedSize seed) privateKeySize
      in case sprintf_loop_local (privateKeySize div 2) private_key
                (replicate privateKeySize NUL) of
           Inl e \<Rightarrow> Inl e
         | Inr converted_private_key \<Rightarrow>
             Inr (fold (\<lambda>i out. out[i := converted_private_key ! i]) [0..<privateKeySize]
                    out_private_key))"

subsection \<open>\<^verbatim>\<open>createPublicKey\<close>\<close>

text \<open>
  The scalar that \<^verbatim>\<open>ge_scalarmult_base\<close> reads: the first 32 bytes of the 64-byte
  array \<^verbatim>\<open>private_key_hash\<close>, after the three assignments. The array
  \<^verbatim>\<open>private_key_bytes\<close> is written in every cell by the loop, so the model starts it
  with zeros.
\<close>

definition createPublicKey_scalar :: "'p collaborators \<Rightarrow> (nat \<Rightarrow> int) \<Rightarrow> string \<Rightarrow> byte list" where
  "createPublicKey_scalar cs u private_key =
     (let private_key_bytes =
            scan_reversed u privateKeyPartSize private_key (replicate privateKeyPartSize 0);
          private_key_hash = keccak cs private_key_bytes privateKeySize
      in take 32 (clamp_in_place private_key_hash))"

definition createPublicKey ::
  "'p collaborators \<Rightarrow> (nat \<Rightarrow> int) \<Rightarrow> char list \<Rightarrow> string \<Rightarrow> char list" where
  "createPublicKey cs u public_key private_key =
     (let A = ge_scalarmult_base cs (createPublicKey_scalar cs u private_key);
          in_public_key = ge_p3_tobytes cs A
      in sprintf_loop publicKeySize in_public_key public_key)"

subsection \<open>\<^verbatim>\<open>Sign\<close>\<close>

text \<open>
  The hash of the private key bytes, and the scalar passed to \<^verbatim>\<open>sc_muladd\<close>: a copy
  of the first 32 bytes of the hash (\<^verbatim>\<open>privateKeyRightPart\<close>), after the three
  assignments.
\<close>

definition Sign_privateKeyHash :: "'p collaborators \<Rightarrow> (nat \<Rightarrow> int) \<Rightarrow> string \<Rightarrow> byte list" where
  "Sign_privateKeyHash cs u privateKey =
     (let private_key_bytes =
            scan_reversed u privateKeyPartSize privateKey (replicate privateKeyPartSize 0)
      in keccak cs private_key_bytes privateKeySize)"

definition Sign_scalar :: "'p collaborators \<Rightarrow> (nat \<Rightarrow> int) \<Rightarrow> string \<Rightarrow> byte list" where
  "Sign_scalar cs u privateKey =
     (let privateKeyRightPart = take privateKeyPartSize (Sign_privateKeyHash cs u privateKey)
      in clamp_in_place privateKeyRightPart)"

text \<open>
  \<open>u\<close> and \<open>w\<close> are what the two variables \<^verbatim>\<open>value\<close> hold before \<^verbatim>\<open>sscanf\<close>, in
  the loop over the private key text and in the loop over the public key text. The
  second loop writes the public key bytes over \<^verbatim>\<open>private_key_bytes\<close>.
\<close>

definition Sign ::
  "'p collaborators \<Rightarrow> (nat \<Rightarrow> int) \<Rightarrow> (nat \<Rightarrow> int) \<Rightarrow> byte list \<Rightarrow> byte list \<Rightarrow> string \<Rightarrow> string
     \<Rightarrow> byte list" where
  "Sign cs u w signature data public_key privateKey =
     (let private_key_bytes =
            scan_reversed u privateKeyPartSize privateKey (replicate privateKeyPartSize 0);
          privateKeyHash = Sign_privateKeyHash cs u privateKey;
          inData = take privateKeyPartSize (drop privateKeyPartSize privateKeyHash) @ data;
          r = keccak cs inData hash_512_Size;
          r = store_at r 0 (sc_reduce cs r);
          R = ge_scalarmult_base cs (take 32 r);
          signature = store_at signature 0 (ge_p3_tobytes cs R);
          private_key_bytes = scan_forward w publicKeySize public_key private_key_bytes;
          inData = take signaturePartRAM signature @ take publicKeySize private_key_bytes @ data;
          hram = keccak cs inData hash_512_Size;
          privateKeyRightPart = Sign_scalar cs u privateKey;
          hram = store_at hram 0 (sc_reduce cs hram)
      in store_at signature signaturePartRAM
           (sc_muladd cs (take 32 hram) privateKeyRightPart (take 32 r)))"

subsection \<open>The operations in the words of the specification\<close>

text \<open>
  The hex codec, the clamping and the two derivations as the specification describes
  them, to be compared with the functions of the file. A decode error is \<open>None\<close>.
\<close>

definition Hash512 :: "'p collaborators \<Rightarrow> byte list \<Rightarrow> byte list" where
  "Hash512 cs input = keccak cs input 64"

definition Hash256 :: "'p collaborators \<Rightarrow> byte list \<Rightarrow> byte list" where
  "Hash256 cs input = keccak cs input 32"

definition hexEncode :: "byte list \<Rightarrow> string" where
  "hexEncode bytes =
     concat (map (\<lambda>b. [hex_digit (unat b div 16), hex_digit (unat b mod 16)]) bytes)"

definition is_hex_char :: "char \<Rightarrow> bool" where
  "is_hex_char c \<longleftrightarrow> xdigit_value c \<noteq> None"

definition is_hex_text :: "nat \<Rightarrow> string \<Rightarrow> bool" where
  "is_hex_text n text \<longleftrightarrow> length text = 2 * n \<and> list_all is_hex_char text"

definition nibble :: "char \<Rightarrow> nat" where
  "nibble c = (case xdigit_value c of Some v \<Rightarrow> v | None \<Rightarrow> 0)"

definition hex_pair :: "string \<Rightarrow> nat \<Rightarrow> byte" where
  "hex_pair text j = word_of_nat (16 * nibble (text ! (2 * j)) + nibble (text ! (2 * j + 1)))"

definition hexDecode :: "nat \<Rightarrow> string \<Rightarrow> bool \<Rightarrow> byte list option" where
  "hexDecode n text reversed =
     (if is_hex_text n text
      then Some (map (\<lambda>i. hex_pair text (if reversed then n - 1 - i else i)) [0..<n])
      else None)"

definition clamp :: "byte list \<Rightarrow> byte list" where
  "clamp s =
     (s[0 := unset_bit 0 (unset_bit 1 (unset_bit 2 (s ! 0)))])
       [31 := set_bit 6 (unset_bit 7 (s ! 31))]"

definition derivePublicKey :: "'p collaborators \<Rightarrow> string \<Rightarrow> string option" where
  "derivePublicKey cs PrivateKeyText =
     (case hexDecode 32 PrivateKeyText True of
        None \<Rightarrow> None
      | Some kBytes \<Rightarrow>
          (let expanded = Hash512 cs kBytes;
               a = clamp (take 32 expanded);
               encodedA = ge_p3_tobytes cs (ge_scalarmult_base cs a)
           in Some (hexEncode encodedA)))"

definition sign :: "'p collaborators \<Rightarrow> byte list \<Rightarrow> string \<Rightarrow> string \<Rightarrow> byte list option" where
  "sign cs message PublicKeyText PrivateKeyText =
     (case hexDecode 32 PrivateKeyText True of
        None \<Rightarrow> None
      | Some kBytes \<Rightarrow>
          (case hexDecode 32 PublicKeyText False of
             None \<Rightarrow> None
           | Some Abytes \<Rightarrow>
               (let expanded = Hash512 cs kBytes;
                    aSeedHalf = take 32 expanded;
                    nonceSeed = take 32 (drop 32 expanded);
                    r = sc_reduce cs (Hash512 cs (nonceSeed @ message));
                    encodedR = ge_p3_tobytes cs (ge_scalarmult_base cs r);
                    hram = sc_reduce cs (Hash512 cs (encodedR @ Abytes @ message));
                    a = clamp aSeedHalf;
                    S = sc_muladd cs hram a r
                in Some (encodedR @ S))))"

subsection \<open>Stand-ins for the library functions, to evaluate examples\<close>

text \<open>
  These are not Keccak and not curve arithmetic: they only produce arrays of the
  documented sizes, so that the functions of the file can be run on concrete inputs.
\<close>

definition demo_pad :: "nat \<Rightarrow> byte list \<Rightarrow> byte list" where
  "demo_pad n xs = take n (xs @ replicate n 0)"

definition demo :: "byte list collaborators" where
  "demo =
     \<lparr> keccak = (\<lambda>input mdlen.
         map (\<lambda>i. word_of_nat (31 * i + length input) + foldr (\<lambda>b acc. b + 3 * acc) input 7)
           [0..<mdlen]),
       ge_scalarmult_base = (\<lambda>a. map (\<lambda>x. 5 * x + 1) a),
       ge_p3_tobytes = demo_pad 32,
       sc_reduce = demo_pad 32,
       sc_muladd = (\<lambda>a b c. map (\<lambda>i. a ! i * b ! i + c ! i) [0..<32]) \<rparr>"

definition no_value :: "nat \<Rightarrow> int" where
  "no_value i = 0"

definition other_value :: "nat \<Rightarrow> int" where
  "other_value i = 255 - int i"

definition demo_private :: string where
  "demo_private = ''575dbb3062267eff57c970a336ebbc8fbcfe12c5bd3ed7bc11eb0481d7704ced''"

definition demo_private_upper :: string where
  "demo_private_upper = ''575DBB3062267EFF57C970A336EBBC8FBCFE12C5BD3ED7BC11EB0481D7704CED''"

definition demo_public :: string where
  "demo_public = ''c5f54ba980fcbb657dbaaa42700539b207873e134d2375efeab5f1ab52f87844''"

definition demo_public_upper :: string where
  "demo_public_upper = ''C5F54BA980FCBB657DBAAA42700539B207873E134D2375EFEAB5F1AB52F87844''"

definition demo_message :: "byte list" where
  "demo_message = [0x8c, 0xe0, 0x3c, 0xd6, 0x0f]"

definition demo_private_63 :: string where
  "demo_private_63 = ''575dbb3062267eff57c970a336ebbc8fbcfe12c5bd3ed7bc11eb0481d7704ce''"

definition demo_private_g :: string where
  "demo_private_g = ''g75dbb3062267eff57c970a336ebbc8fbcfe12c5bd3ed7bc11eb0481d7704ced''"

subsection \<open>Lowercase digits and letter case\<close>

definition is_lower_hex :: "char \<Rightarrow> bool" where
  "is_lower_hex c \<longleftrightarrow> c \<in> set ''0123456789abcdef''"

text \<open>The lowercase form of an ASCII letter, and texts that differ in letter case only.\<close>

definition tolower_c :: "char \<Rightarrow> char" where
  "tolower_c c =
     (let k = (of_char c :: nat) in if 65 \<le> k \<and> k \<le> 90 then char_of (k + 32) else c)"

definition same_up_to_case :: "string \<Rightarrow> string \<Rightarrow> bool" where
  "same_up_to_case s t \<longleftrightarrow> map tolower_c s = map tolower_c t"

section \<open>Facts about the C library models and the loops\<close>

lemmas size_defs =
  privateKeyPartSize_def signaturePartRAM_def privateKeySize_def publicKeySize_def
  signatureSize_def seedSize_def hash_512_Size_def hash_256_Size_def

lemma lt8_cases:
  "j < 8 \<Longrightarrow> j = 0 \<or> j = 1 \<or> j = 2 \<or> j = 3 \<or> j = 4 \<or> j = 5 \<or> j = 6 \<or> j = (7::nat)"
  by arith

lemma lt16_cases:
  "d < 16 \<Longrightarrow> d = 0 \<or> d = 1 \<or> d = 2 \<or> d = 3 \<or> d = 4 \<or> d = 5 \<or> d = 6 \<or> d = 7 \<or>
     d = 8 \<or> d = 9 \<or> d = 10 \<or> d = 11 \<or> d = 12 \<or> d = 13 \<or> d = 14 \<or> d = (15::nat)"
  by arith

lemma and_248_unset: "(x::byte) AND 248 = unset_bit 0 (unset_bit 1 (unset_bit 2 x))"
proof (rule bit_word_eqI)
  fix j assume "j < LENGTH(8)"
  then have "j = 0 \<or> j = 1 \<or> j = 2 \<or> j = 3 \<or> j = 4 \<or> j = 5 \<or> j = 6 \<or> j = 7"
    using lt8_cases [of j] by simp
  then show "bit (x AND 248) j \<longleftrightarrow> bit (unset_bit 0 (unset_bit 1 (unset_bit 2 x))) j"
    by (elim disjE) (simp_all add: bit_and_iff bit_unset_bit_iff)
qed

lemma and_127_or_64: "((x::byte) AND 127) OR 64 = set_bit 6 (unset_bit 7 x)"
proof (rule bit_word_eqI)
  fix j assume "j < LENGTH(8)"
  then have "j = 0 \<or> j = 1 \<or> j = 2 \<or> j = 3 \<or> j = 4 \<or> j = 5 \<or> j = 6 \<or> j = 7"
    using lt8_cases [of j] by simp
  then show "bit ((x AND 127) OR 64) j \<longleftrightarrow> bit (set_bit 6 (unset_bit 7 x)) j"
    by (elim disjE)
      (simp_all add: bit_and_iff bit_or_iff bit_unset_bit_iff bit_set_bit_iff)
qed

lemma xdigit_value_hex_digit: "d < 16 \<Longrightarrow> xdigit_value (hex_digit d) = Some d"
  by (drule lt16_cases) (elim disjE, simp_all add: xdigit_value_def hex_digit_def)

lemma fold_update_forward:
  "k \<le> length b \<Longrightarrow> fold (\<lambda>i b. b[i := f i]) [0..<k] b = map f [0..<k] @ drop k b"
proof (induction k)
  case 0
  then show ?case by simp
next
  case (Suc k)
  then have "k < length b" by simp
  then have "drop k b = b ! k # drop (Suc k) b"
    by (simp add: Cons_nth_drop_Suc)
  with Suc show ?case
    by (simp add: list_update_append)
qed

lemma fold_update_reversed:
  "k \<le> n \<Longrightarrow> length b = n \<Longrightarrow>
   fold (\<lambda>i b. b[n - 1 - i := f i]) [0..<k] b = take (n - k) b @ rev (map f [0..<k])"
proof (induction k)
  case 0
  then show ?case by simp
next
  case (Suc k)
  then have lt: "k < n" by simp
  then have "n - k = Suc (n - Suc k)" by simp
  then have "take (n - k) b = take (n - Suc k) b @ [b ! (n - Suc k)]"
    using lt Suc.prems by (simp add: take_Suc_conv_app_nth)
  with Suc lt show ?case
    by (simp add: list_update_append)
qed

lemma xdigit_not_space: "xdigit_value c = Some v \<Longrightarrow> \<not> isspace_c c"
  by (auto simp add: xdigit_value_def isspace_c_def Let_def split: if_splits)

lemma xdigit_not_sign: "xdigit_value c = Some v \<Longrightarrow> c \<noteq> CHR ''+'' \<and> c \<noteq> CHR ''-''"
  by (auto simp add: xdigit_value_def Let_def split: if_splits)

lemma xdigit_value_less: "xdigit_value c = Some v \<Longrightarrow> v < 16"
  by (auto simp add: xdigit_value_def Let_def split: if_splits)

lemma sscanf_02x_pair:
  assumes "xdigit_value a = Some x" and "xdigit_value b = Some y"
  shows "sscanf_02x (a # b # rest) = Some (int (16 * x + y))"
  using assms xdigit_not_space [OF assms(1)] xdigit_not_sign [OF assms(1)]
  by (simp add: sscanf_02x_def scan_item_def)

lemma sscanf_02x_single:
  assumes "xdigit_value a = Some x"
  shows "sscanf_02x [a] = Some (int x)"
  using assms xdigit_not_space [OF assms(1)] xdigit_not_sign [OF assms(1)]
  by (simp add: sscanf_02x_def scan_item_def)

lemma is_hex_text_nth:
  "is_hex_text n text \<Longrightarrow> j < 2 * n \<Longrightarrow> xdigit_value (text ! j) = Some (nibble (text ! j))"
  by (auto simp add: is_hex_text_def is_hex_char_def nibble_def list_all_length)

lemma drop_pair:
  assumes "length text = 2 * n" and "i < n"
  shows "drop (2 * i) text = text ! (2 * i) # text ! (2 * i + 1) # drop (2 * i + 2) text"
proof -
  have "2 * i < length text" "Suc (2 * i) < length text" using assms by simp_all
  then show ?thesis
    by (simp add: Cons_nth_drop_Suc)
qed

lemma scan_value_hex:
  assumes "is_hex_text n text" and "i < n"
  shows "scan_value v text i = hex_pair text i"
proof -
  have len: "length text = 2 * n" using assms(1) by (simp add: is_hex_text_def)
  have a: "xdigit_value (text ! (2 * i)) = Some (nibble (text ! (2 * i)))"
    using assms by (simp add: is_hex_text_nth)
  have b: "xdigit_value (text ! (2 * i + 1)) = Some (nibble (text ! (2 * i + 1)))"
    using assms by (simp add: is_hex_text_nth)
  show ?thesis
    unfolding scan_value_def drop_pair [OF len assms(2)] sscanf_02x_pair [OF a b] hex_pair_def
    by simp
qed

lemma scan_forward_hex:
  assumes "is_hex_text n text" and "length bytes = n"
  shows "scan_forward u n text bytes = map (hex_pair text) [0..<n]"
proof -
  have "scan_forward u n text bytes = map (\<lambda>i. scan_value (u i) text i) [0..<n]"
    using assms(2) by (simp add: scan_forward_def fold_update_forward)
  also have "\<dots> = map (hex_pair text) [0..<n]"
    using assms(1) by (simp add: scan_value_hex)
  finally show ?thesis .
qed

lemma rev_map_upt: "rev (map f [0..<n]) = map (\<lambda>i. f (n - 1 - i)) [0..<n]"
  by (rule nth_equalityI) (simp_all add: rev_nth)

lemma scan_reversed_hex:
  assumes "is_hex_text n text" and "length bytes = n"
  shows "scan_reversed u n text bytes = map (\<lambda>i. hex_pair text (n - 1 - i)) [0..<n]"
proof -
  have "scan_reversed u n text bytes = rev (map (\<lambda>i. scan_value (u i) text i) [0..<n])"
    unfolding scan_reversed_def
    using assms(2) fold_update_reversed [of n n bytes "\<lambda>i. scan_value (u i) text i"] by simp
  also have "map (\<lambda>i. scan_value (u i) text i) [0..<n] = map (hex_pair text) [0..<n]"
    using assms(1) by (simp add: scan_value_hex)
  finally show ?thesis by (simp add: rev_map_upt)
qed

lemma hexDecode_forward: "is_hex_text n text \<Longrightarrow> hexDecode n text False = Some (map (hex_pair text) [0..<n])"
  by (simp add: hexDecode_def)

lemma hexDecode_reversed: "is_hex_text n text \<Longrightarrow> hexDecode n text True = Some (map (\<lambda>i. hex_pair text (n - 1 - i)) [0..<n])"
  by (simp add: hexDecode_def)

lemma store_at_length: "k + length xs \<le> length buf \<Longrightarrow> length (store_at buf k xs) = length buf"
  by (simp add: store_at_def)

lemma store_at_append:
  "length xs = k \<Longrightarrow> store_at (xs @ ys) k zs = xs @ zs @ drop (length zs) ys"
  by (simp add: store_at_def)

lemma sprintf_loop_Suc:
  "sprintf_loop (Suc n) src out = store_at (sprintf_loop n src out) (n * 2) (sprintf_02x (src ! n))"
  by (simp add: sprintf_loop_def)

lemma hexEncode_snoc: "hexEncode (bs @ [b]) = hexEncode bs @ [hex_digit (unat b div 16), hex_digit (unat b mod 16)]"
  by (simp add: hexEncode_def)

lemma length_hexEncode: "length (hexEncode bs) = 2 * length bs"
  by (induction bs) (simp_all add: hexEncode_def)

lemma sprintf_loop_hexEncode:
  "n \<le> length src \<Longrightarrow> 0 < n \<Longrightarrow>
   sprintf_loop n src out = hexEncode (take n src) @ NUL # drop (2 * n + 1) out"
proof (induction n)
  case 0
  then show ?case by simp
next
  case (Suc n)
  show ?case
  proof (cases "n = 0")
    case True
    have "take (Suc 0) src = [src ! 0]"
      using Suc.prems by (cases src) simp_all
    with True show ?thesis
      by (simp add: sprintf_loop_def store_at_def sprintf_02x_def hexEncode_def numeral_3_eq_3)
  next
    case False
    with Suc have IH: "sprintf_loop n src out = hexEncode (take n src) @ NUL # drop (2 * n + 1) out"
      by simp
    have t: "take (Suc n) src = take n src @ [src ! n]"
      using Suc.prems by (simp add: take_Suc_conv_app_nth)
    have l: "length (hexEncode (take n src)) = n * 2"
      using Suc.prems by (simp add: length_hexEncode)
    show ?thesis
      unfolding sprintf_loop_Suc IH t hexEncode_snoc store_at_append [OF l]
      by (simp add: sprintf_02x_def)
  qed
qed

lemma hex_digit_not_NUL: "d < 16 \<Longrightarrow> hex_digit d \<noteq> NUL"
  by (drule lt16_cases) (elim disjE, simp_all add: hex_digit_def NUL_def)

lemma unat_byte_div: "unat (b::byte) div 16 < 16"
proof -
  have "unat b < 2 ^ LENGTH(8)" by (rule unsigned_less)
  then have "unat b < 256" by simp
  then show ?thesis by simp
qed

lemma is_hex_char_hex_digit: "d < 16 \<Longrightarrow> is_hex_char (hex_digit d)"
  by (simp add: is_hex_char_def xdigit_value_hex_digit)

lemma nibble_hex_digit: "d < 16 \<Longrightarrow> nibble (hex_digit d) = d"
  by (simp add: nibble_def xdigit_value_hex_digit)

lemma hexEncode_Cons:
  "hexEncode (b # bs) = hex_digit (unat b div 16) # hex_digit (unat b mod 16) # hexEncode bs"
  by (simp add: hexEncode_def)

lemma hexEncode_Nil: "hexEncode [] = []"
  by (simp add: hexEncode_def)

lemma is_hex_char_hexEncode: "list_all is_hex_char (hexEncode bs)"
  by (induction bs) (simp_all add: hexEncode_Cons hexEncode_Nil is_hex_char_hex_digit unat_byte_div)

lemma is_hex_text_hexEncode: "is_hex_text (length bs) (hexEncode bs)"
  by (simp add: is_hex_text_def length_hexEncode is_hex_char_hexEncode)

lemma no_NUL_hexEncode: "c \<in> set (hexEncode bs) \<Longrightarrow> c \<noteq> NUL"
proof (induction bs)
  case Nil
  then show ?case by (simp add: hexEncode_Nil)
next
  case (Cons b bs)
  have "hex_digit (unat b div 16) \<noteq> NUL" "hex_digit (unat b mod 16) \<noteq> NUL"
    by (simp_all add: hex_digit_not_NUL unat_byte_div)
  with Cons show ?case
    by (auto simp add: hexEncode_Cons)
qed

lemma c_string_hexEncode: "c_string (hexEncode bs @ NUL # rest) = hexEncode bs"
  unfolding c_string_def
  using no_NUL_hexEncode [of _ bs] by (simp add: takeWhile_tail)

lemma nth_hexEncode:
  "i < length bs \<Longrightarrow>
   hexEncode bs ! (2 * i) = hex_digit (unat (bs ! i) div 16) \<and>
   hexEncode bs ! (2 * i + 1) = hex_digit (unat (bs ! i) mod 16)"
proof (induction bs arbitrary: i)
  case Nil
  then show ?case by simp
next
  case (Cons b bs)
  then show ?case
    by (cases i) (simp_all add: hexEncode_Cons)
qed

lemma hex_pair_hexEncode: "i < length bs \<Longrightarrow> hex_pair (hexEncode bs) i = bs ! i"
proof -
  assume "i < length bs"
  then have a: "hexEncode bs ! (2 * i) = hex_digit (unat (bs ! i) div 16)"
    and b: "hexEncode bs ! (2 * i + 1) = hex_digit (unat (bs ! i) mod 16)"
    by (simp_all only: nth_hexEncode)
  have "hex_pair (hexEncode bs) i =
      word_of_nat (16 * nibble (hex_digit (unat (bs ! i) div 16)) +
        nibble (hex_digit (unat (bs ! i) mod 16)))"
    unfolding hex_pair_def a b ..
  also have "\<dots> = word_of_nat (16 * (unat (bs ! i) div 16) + unat (bs ! i) mod 16)"
    by (simp only: nibble_hex_digit unat_byte_div pos_mod_bound zero_less_numeral)
  also have "\<dots> = word_of_nat (unat (bs ! i))"
    by (simp only: mult_div_mod_eq)
  finally show ?thesis by simp
qed

lemma clamp_in_place_clamp: "clamp_in_place s = clamp s"
proof (cases "31 < length s")
  case True
  then show ?thesis
    by (simp add: clamp_in_place_def clamp_def Let_def and_248_unset and_127_or_64
        )
next
  case False
  then show ?thesis
    by (simp add: clamp_in_place_def clamp_def Let_def and_248_unset list_update_beyond)
qed

lemma take_clamp: "32 \<le> length h \<Longrightarrow> take 32 (clamp h) = clamp (take 32 h)"
  by (simp add: clamp_def take_update_swap)

lemma private_key_bytes_hex:
  assumes "is_hex_text 32 text"
  shows "scan_reversed u privateKeyPartSize text (replicate privateKeyPartSize 0) =
         map (\<lambda>i. hex_pair text (32 - 1 - i)) [0..<32]"
  unfolding privateKeyPartSize_def
  by (rule scan_reversed_hex [OF assms]) simp

lemma Sign_privateKeyHash_hex:
  assumes "is_hex_text 32 text"
  shows "Sign_privateKeyHash cs u text = Hash512 cs (map (\<lambda>i. hex_pair text (32 - 1 - i)) [0..<32])"
  by (simp only: Sign_privateKeyHash_def Let_def private_key_bytes_hex [OF assms] Hash512_def
      privateKeySize_def)

lemma createPublicKey_scalar_hex:
  assumes "is_hex_text 32 text" and "sizes_respected cs"
  shows "createPublicKey_scalar cs u text =
         clamp (take 32 (Hash512 cs (map (\<lambda>i. hex_pair text (32 - 1 - i)) [0..<32])))"
proof -
  have "length (Hash512 cs (map (\<lambda>i. hex_pair text (32 - 1 - i)) [0..<32])) = 64"
    using assms(2) by (simp add: sizes_respected_def Hash512_def)
  then have "32 \<le> length (Hash512 cs (map (\<lambda>i. hex_pair text (32 - 1 - i)) [0..<32]))"
    by simp
  then show ?thesis
    by (simp only: createPublicKey_scalar_def Let_def private_key_bytes_hex [OF assms(1)]
        clamp_in_place_clamp take_clamp Hash512_def privateKeySize_def)
qed

lemma Sign_scalar_hex:
  assumes "is_hex_text 32 text"
  shows "Sign_scalar cs u text =
         clamp (take 32 (Hash512 cs (map (\<lambda>i. hex_pair text (32 - 1 - i)) [0..<32])))"
  by (simp only: Sign_scalar_def Let_def Sign_privateKeyHash_hex [OF assms] clamp_in_place_clamp
      privateKeyPartSize_def)

lemma take_store_at_0: "length xs = k \<Longrightarrow> take k (store_at buf 0 xs) = xs"
  by (simp add: store_at_def)

lemma store_at_0: "store_at buf 0 xs = xs @ drop (length xs) buf"
  by (simp add: store_at_def)

lemma scan_forward_map:
  "length bytes = n \<Longrightarrow> scan_forward u n text bytes = map (\<lambda>i. scan_value (u i) text i) [0..<n]"
  by (simp add: scan_forward_def fold_update_forward)

lemma scan_reversed_map:
  "length bytes = n \<Longrightarrow>
   scan_reversed u n text bytes = rev (map (\<lambda>i. scan_value (u i) text i) [0..<n])"
  unfolding scan_reversed_def
  using fold_update_reversed [of n n bytes "\<lambda>i. scan_value (u i) text i"] by simp

lemma Sign_unfold:
  assumes "is_hex_text 32 priv" and "sizes_respected cs" and "length signature = signatureSize"
  shows "Sign cs u w signature message pub priv =
         (let kBytes = map (\<lambda>i. hex_pair priv (32 - 1 - i)) [0..<32];
              expanded = Hash512 cs kBytes;
              r = sc_reduce cs (Hash512 cs (take 32 (drop 32 expanded) @ message));
              encodedR = ge_p3_tobytes cs (ge_scalarmult_base cs r);
              Abytes = map (\<lambda>i. scan_value (w i) pub i) [0..<32];
              hram = sc_reduce cs (Hash512 cs (encodedR @ Abytes @ message))
          in encodedR @ sc_muladd cs hram (clamp (take 32 expanded)) r)"
proof -
  let ?k = "map (\<lambda>i. hex_pair priv (32 - 1 - i)) [0..<32]"
  let ?rhash = "Hash512 cs (take 32 (drop 32 (Hash512 cs ?k)) @ message)"
  let ?r = "sc_reduce cs ?rhash"
  let ?encR = "ge_p3_tobytes cs (ge_scalarmult_base cs ?r)"
  let ?A = "map (\<lambda>i. scan_value (w i) pub i) [0..<32]"
  let ?hhash = "Hash512 cs (?encR @ ?A @ message)"
  let ?S = "sc_muladd cs (sc_reduce cs ?hhash) (clamp (take 32 (Hash512 cs ?k))) ?r"
  have lr: "length ?r = 32"
    using assms(2) by (simp add: sizes_respected_def)
  have le: "length ?encR = 32"
    using assms(2) by (simp add: sizes_respected_def)
  have lh: "length (sc_reduce cs ?hhash) = 32"
    using assms(2) by (simp add: sizes_respected_def)
  have lS: "length ?S = 32"
    using assms(2) by (simp add: sizes_respected_def)
  have r: "take 32 (store_at ?rhash 0 ?r) = ?r"
    by (rule take_store_at_0 [OF lr])
  have sig: "store_at signature 0 ?encR = ?encR @ drop 32 signature"
    by (simp only: store_at_0 le)
  have tsig: "take 32 (?encR @ drop 32 signature) = ?encR"
    using le by simp
  have A: "scan_forward w 32 pub ?k = ?A"
    by (rule scan_forward_map) simp
  have tA: "take 32 ?A = ?A"
    by simp
  have h: "take 32 (store_at ?hhash 0 (sc_reduce cs ?hhash)) = sc_reduce cs ?hhash"
    by (rule take_store_at_0 [OF lh])
  have "Sign cs u w signature message pub priv = store_at (?encR @ drop 32 signature) 32 ?S"
    unfolding Sign_def Let_def size_defs
    unfolding Sign_privateKeyHash_hex [OF assms(1)] Sign_scalar_hex [OF assms(1)]
      private_key_bytes_hex [OF assms(1), unfolded size_defs]
    unfolding Hash512_def [symmetric]
    unfolding r sig tsig A tA h ..
  also have "\<dots> = ?encR @ ?S"
    using le lS assms(3) by (simp add: store_at_def signatureSize_def)
  finally show ?thesis
    by (simp only: Let_def)
qed

lemma Sign_unfold_buffer:
  assumes "is_hex_text 32 priv" and "sizes_respected cs" and "64 \<le> length signature"
  shows "Sign cs u w signature message pub priv =
         (let kBytes = map (\<lambda>i. hex_pair priv (32 - 1 - i)) [0..<32];
              expanded = Hash512 cs kBytes;
              r = sc_reduce cs (Hash512 cs (take 32 (drop 32 expanded) @ message));
              encodedR = ge_p3_tobytes cs (ge_scalarmult_base cs r);
              Abytes = map (\<lambda>i. scan_value (w i) pub i) [0..<32];
              hram = sc_reduce cs (Hash512 cs (encodedR @ Abytes @ message))
          in encodedR @ sc_muladd cs hram (clamp (take 32 expanded)) r @ drop 64 signature)"
proof -
  let ?k = "map (\<lambda>i. hex_pair priv (32 - 1 - i)) [0..<32]"
  let ?rhash = "Hash512 cs (take 32 (drop 32 (Hash512 cs ?k)) @ message)"
  let ?r = "sc_reduce cs ?rhash"
  let ?encR = "ge_p3_tobytes cs (ge_scalarmult_base cs ?r)"
  let ?A = "map (\<lambda>i. scan_value (w i) pub i) [0..<32]"
  let ?hhash = "Hash512 cs (?encR @ ?A @ message)"
  let ?S = "sc_muladd cs (sc_reduce cs ?hhash) (clamp (take 32 (Hash512 cs ?k))) ?r"
  have lr: "length ?r = 32"
    using assms(2) by (simp add: sizes_respected_def)
  have le: "length ?encR = 32"
    using assms(2) by (simp add: sizes_respected_def)
  have lh: "length (sc_reduce cs ?hhash) = 32"
    using assms(2) by (simp add: sizes_respected_def)
  have lS: "length ?S = 32"
    using assms(2) by (simp add: sizes_respected_def)
  have r: "take 32 (store_at ?rhash 0 ?r) = ?r"
    by (rule take_store_at_0 [OF lr])
  have sig: "store_at signature 0 ?encR = ?encR @ drop 32 signature"
    by (simp only: store_at_0 le)
  have tsig: "take 32 (?encR @ drop 32 signature) = ?encR"
    using le by simp
  have A: "scan_forward w 32 pub ?k = ?A"
    by (rule scan_forward_map) simp
  have tA: "take 32 ?A = ?A"
    by simp
  have h: "take 32 (store_at ?hhash 0 (sc_reduce cs ?hhash)) = sc_reduce cs ?hhash"
    by (rule take_store_at_0 [OF lh])
  have "Sign cs u w signature message pub priv = store_at (?encR @ drop 32 signature) 32 ?S"
    unfolding Sign_def Let_def size_defs
    unfolding Sign_privateKeyHash_hex [OF assms(1)] Sign_scalar_hex [OF assms(1)]
      private_key_bytes_hex [OF assms(1), unfolded size_defs]
    unfolding Hash512_def [symmetric]
    unfolding r sig tsig A tA h ..
  also have "\<dots> = ?encR @ ?S @ drop 64 signature"
    using le lS assms(3) by (simp add: store_at_def)
  finally show ?thesis
    by (simp only: Let_def)
qed

lemma is_lower_hex_hex_digit: "d < 16 \<Longrightarrow> is_lower_hex (hex_digit d)"
  by (drule lt16_cases) (elim disjE, simp_all add: hex_digit_def is_lower_hex_def)

lemma is_lower_hex_hexEncode: "list_all is_lower_hex (hexEncode bs)"
  by (induction bs)
    (simp_all add: hexEncode_Cons hexEncode_Nil is_lower_hex_hex_digit unat_byte_div)

lemma c_string_sprintf_loop:
  "length src = n \<Longrightarrow> 0 < n \<Longrightarrow> c_string (sprintf_loop n src out) = hexEncode src"
  by (simp add: sprintf_loop_hexEncode c_string_hexEncode)

lemma demo_sizes: "sizes_respected demo"
  by (auto simp add: sizes_respected_def demo_def demo_pad_def)

lemma demo_private_hex: "is_hex_text 32 demo_private"
  by (simp add: is_hex_text_def demo_private_def is_hex_char_def xdigit_value_def)

lemma demo_public_hex: "is_hex_text 32 demo_public"
  by (simp add: is_hex_text_def demo_public_def is_hex_char_def xdigit_value_def)

lemma scan_value_two_digits:
  assumes "Suc (2 * i) < length text"
    and "xdigit_value (text ! (2 * i)) = Some x" and "xdigit_value (text ! (2 * i + 1)) = Some y"
  shows "scan_value v text i = word_of_nat (16 * x + y)"
proof -
  have "drop (2 * i) text = text ! (2 * i) # text ! (2 * i + 1) # drop (2 * i + 2) text"
    using assms(1) by (simp add: Cons_nth_drop_Suc)
  then show ?thesis
    unfolding scan_value_def using sscanf_02x_pair [OF assms(2,3)] by simp
qed

lemma scan_value_last_digit:
  assumes "length text = 2 * i + 1" and "xdigit_value (text ! (2 * i)) = Some x"
  shows "scan_value v text i = word_of_nat x"
proof -
  have "drop (2 * i) text = [text ! (2 * i)]"
    using assms(1) by (metis Cons_nth_drop_Suc drop_all lessI order_refl Suc_eq_plus1)
  then show ?thesis
    unfolding scan_value_def using sscanf_02x_single [OF assms(2)] by simp
qed

lemma scan_value_no_match:
  "sscanf_02x (drop (2 * i) text) = None \<Longrightarrow> scan_value v text i = word_of_int v"
  by (simp add: scan_value_def)

lemma scan_value_zero_fill:
  assumes "is_hex_text 32 (t @ [CHR ''0'', c])" and "i < 32"
  shows "scan_value v (t @ [c]) i = scan_value v' (t @ [CHR ''0'', c]) i"
proof -
  let ?full = "t @ [CHR ''0'', c]"
  have lt: "length t = 62"
    using assms(1) by (simp add: is_hex_text_def)
  have full: "scan_value v' ?full i = hex_pair ?full i"
    by (rule scan_value_hex [OF assms])
  show ?thesis
  proof (cases "i = 31")
    case True
    have c: "xdigit_value c = Some (nibble c)"
      using is_hex_text_nth [OF assms(1), of 63] lt by (simp add: nth_append)
    have "scan_value v (t @ [c]) i = word_of_nat (nibble c)"
      using True lt c by (intro scan_value_last_digit) (simp_all add: nth_append)
    moreover have "hex_pair ?full i = word_of_nat (nibble c)"
      using True lt by (simp add: hex_pair_def nth_append nibble_def xdigit_value_def)
    ultimately show ?thesis
      using full by simp
  next
    case False
    with assms(2) have i: "i < 31" by simp
    have a: "xdigit_value (?full ! (2 * i)) = Some (nibble (?full ! (2 * i)))"
      and b: "xdigit_value (?full ! (2 * i + 1)) = Some (nibble (?full ! (2 * i + 1)))"
      using is_hex_text_nth [OF assms(1)] i by simp_all
    have same: "(t @ [c]) ! (2 * i) = ?full ! (2 * i)" "(t @ [c]) ! (2 * i + 1) = ?full ! (2 * i + 1)"
      using i lt by (simp_all add: nth_append)
    have "scan_value v (t @ [c]) i =
          word_of_nat (16 * nibble (?full ! (2 * i)) + nibble (?full ! (2 * i + 1)))"
      using i lt a b same by (intro scan_value_two_digits) simp_all
    then show ?thesis
      using full by (simp add: hex_pair_def)
  qed
qed

lemma xdigit_value_tolower: "xdigit_value (tolower_c c) = xdigit_value c"
proof (cases "65 \<le> (of_char c :: nat) \<and> (of_char c :: nat) \<le> 90")
  case True
  then have "(of_char (char_of (of_char c + 32 :: nat)) :: nat) = of_char c + 32"
    by (simp add: of_char_of)
  with True show ?thesis
    by (simp add: tolower_c_def xdigit_value_def Let_def)
next
  case False
  then show ?thesis
    by (simp only: tolower_c_def Let_def if_False)
qed

lemma same_up_to_case_length: "same_up_to_case s t \<Longrightarrow> length s = length t"
  unfolding same_up_to_case_def by (rule map_eq_imp_length_eq)

lemma same_up_to_case_xdigit:
  assumes "same_up_to_case s t" and "i < length s"
  shows "xdigit_value (s ! i) = xdigit_value (t ! i)"
proof -
  have "i < length t"
    using assms same_up_to_case_length by auto
  have "map tolower_c s ! i = map tolower_c t ! i"
    using assms(1) by (simp add: same_up_to_case_def)
  then have "tolower_c (s ! i) = tolower_c (t ! i)"
    using assms(2) \<open>i < length t\<close> by simp
  then show ?thesis
    by (metis xdigit_value_tolower)
qed

lemma same_up_to_case_hex_text:
  assumes "same_up_to_case s t" and "is_hex_text n s"
  shows "is_hex_text n t"
  using assms same_up_to_case_length [OF assms(1)] same_up_to_case_xdigit [OF assms(1)]
  by (simp add: is_hex_text_def list_all_length is_hex_char_def)

lemma same_up_to_case_hex_pair:
  assumes "same_up_to_case s t" and "is_hex_text n s" and "i < n"
  shows "hex_pair s i = hex_pair t i"
proof -
  have "2 * i < length s" "2 * i + 1 < length s"
    using assms(2,3) by (simp_all add: is_hex_text_def)
  then have "xdigit_value (s ! (2 * i)) = xdigit_value (t ! (2 * i))"
    and "xdigit_value (s ! (2 * i + 1)) = xdigit_value (t ! (2 * i + 1))"
    using same_up_to_case_xdigit [OF assms(1)] by blast+
  then show ?thesis
    by (simp add: hex_pair_def nibble_def)
qed

lemma scan_forward_hexEncode:
  assumes "length bytes = length b"
  shows "scan_forward u (length b) (hexEncode b) bytes = b"
proof -
  have "scan_forward u (length b) (hexEncode b) bytes = map (hex_pair (hexEncode b)) [0..<length b]"
    by (rule scan_forward_hex [OF is_hex_text_hexEncode assms])
  also have "\<dots> = map (\<lambda>i. b ! i) [0..<length b]"
    by (simp add: hex_pair_hexEncode)
  finally show ?thesis by (simp add: map_nth)
qed

lemma scan_reversed_hexEncode:
  assumes "length bytes = length b"
  shows "scan_reversed u (length b) (hexEncode b) bytes = rev b"
proof -
  have "scan_reversed u (length b) (hexEncode b) bytes =
        map (\<lambda>i. hex_pair (hexEncode b) (length b - 1 - i)) [0..<length b]"
    by (rule scan_reversed_hex [OF is_hex_text_hexEncode assms])
  also have "\<dots> = rev (map (hex_pair (hexEncode b)) [0..<length b])"
    by (simp only: rev_map_upt)
  also have "map (hex_pair (hexEncode b)) [0..<length b] = map (\<lambda>i. b ! i) [0..<length b]"
    by (simp add: hex_pair_hexEncode)
  finally show ?thesis by (simp add: map_nth)
qed

lemma sprintf_loop_local_fits:
  "2 * n + 1 \<le> length buf \<Longrightarrow>
   sprintf_loop_local n src buf = Inr (sprintf_loop n src buf) \<and>
   length (sprintf_loop n src buf) = length buf"
proof (induction n)
  case 0
  then show ?case
    by (simp add: sprintf_loop_local_def sprintf_loop_def)
next
  case (Suc n)
  then have IH: "sprintf_loop_local n src buf = Inr (sprintf_loop n src buf)"
    and len: "length (sprintf_loop n src buf) = length buf"
    by simp_all
  have step: "sprintf_loop_local (Suc n) src buf =
      (case sprintf_loop_local n src buf of
         Inl e \<Rightarrow> Inl e
       | Inr b \<Rightarrow> store_local b (n * 2) (sprintf_02x (src ! n)))"
    by (simp add: sprintf_loop_local_def)
  have room: "n * 2 + length (sprintf_02x (src ! n)) \<le> length (sprintf_loop n src buf)"
    using Suc.prems len by (simp add: sprintf_02x_def)
  show ?case
    unfolding step IH sprintf_loop_Suc
    using room len by (simp add: store_local_def store_at_length)
qed

lemma sprintf_loop_local_overflow:
  assumes "length buf = 2 * Suc m"
  shows "sprintf_loop_local (Suc m) src buf = Inl (Out_of_bounds (length buf))"
proof -
  have "2 * m + 1 \<le> length buf"
    using assms by simp
  then have fits: "sprintf_loop_local m src buf = Inr (sprintf_loop m src buf)"
    and len: "length (sprintf_loop m src buf) = length buf"
    using sprintf_loop_local_fits [of m buf src] by simp_all
  have step: "sprintf_loop_local (Suc m) src buf =
      (case sprintf_loop_local m src buf of
         Inl e \<Rightarrow> Inl e
       | Inr b \<Rightarrow> store_local b (m * 2) (sprintf_02x (src ! m)))"
    by (simp add: sprintf_loop_local_def)
  show ?thesis
    unfolding step fits
    using len assms by (simp add: store_local_def sprintf_02x_def)
qed

lemma createPrivateKey_out_of_bounds:
  "createPrivateKey cs seed out_private_key = Inl (Out_of_bounds 64)"
proof -
  have "sprintf_loop_local (Suc 31) (keccak cs (take 32 seed) 64) (replicate 64 NUL) =
        Inl (Out_of_bounds (length (replicate 64 NUL)))"
    by (rule sprintf_loop_local_overflow) simp
  then show ?thesis
    by (simp add: createPrivateKey_def privateKeySize_def seedSize_def Let_def)
qed

lemma sprintf_loop_local_65:
  assumes "32 \<le> length src"
  shows "sprintf_loop_local 32 src (replicate 65 NUL) = Inr (hexEncode (take 32 src) @ [NUL])"
proof -
  have "sprintf_loop_local 32 src (replicate 65 NUL) = Inr (sprintf_loop 32 src (replicate 65 NUL))"
    using sprintf_loop_local_fits [of 32 "replicate 65 NUL" src] by simp
  also have "sprintf_loop 32 src (replicate 65 NUL) = hexEncode (take 32 src) @ [NUL]"
    using assms by (simp add: sprintf_loop_hexEncode)
  finally show ?thesis .
qed

lemma demo_private_same_case: "same_up_to_case demo_private demo_private_upper"
  by code_simp

lemma demo_public_same_case: "same_up_to_case demo_public demo_public_upper"
  by code_simp

lemma length_store_at:
  "length (store_at buf k xs) = min k (length buf) + length xs + (length buf - (k + length xs))"
  by (simp add: store_at_def)

lemma length_Sign:
  assumes "sizes_respected cs" and "length signature = signatureSize"
  shows "length (Sign cs u w signature data public_key privateKey) = 64"
  using assms
  by (simp add: Sign_def Let_def length_store_at sizes_respected_def size_defs)

lemma c_string_createPublicKey:
  assumes "sizes_respected cs"
  shows "c_string (createPublicKey cs u public_key private_key) =
         hexEncode (ge_p3_tobytes cs (ge_scalarmult_base cs (createPublicKey_scalar cs u private_key)))"
proof -
  have "length (ge_p3_tobytes cs (ge_scalarmult_base cs (createPublicKey_scalar cs u private_key))) = 32"
    using assms by (simp add: sizes_respected_def)
  then show ?thesis
    by (simp add: createPublicKey_def Let_def publicKeySize_def c_string_sprintf_loop)
qed

lemma demo_buffer: "length (replicate 64 (0::byte)) = signatureSize"
  by (simp add: signatureSize_def)

section \<open>The claims\<close>

text \<open>
  In the theorems below \<open>cs\<close> stands for the library functions, \<open>u\<close> and \<open>w\<close> for
  the contents of the uninitialised variables \<^verbatim>\<open>value\<close>, and the arrays
  \<open>signature\<close>, \<open>public_key\<close>, \<open>out\<close> for what the caller's arrays hold before
  the call. A key text that the specification calls valid is a text of 64 hexadecimal
  digits, \<open>is_hex_text 32\<close>.
\<close>

subsection \<open>C1: what \<^verbatim>\<open>Sign\<close> computes\<close>

text \<open>
  C1. For every message and every private and public key text of 64 hexadecimal
  digits, \<^verbatim>\<open>Sign\<close> leaves in the 64-byte array \<^verbatim>\<open>signature\<close> the bytes
  \<open>encodedR || S\<close> of the specification: the private key text decoded in reversed
  order and hashed, the nonce from the second half of that hash followed by the
  message, the point of the reduced nonce, the challenge from the encoded point, the
  public key bytes (not reversed) and the message, and \<open>S\<close> from \<^verbatim>\<open>sc_muladd\<close> on the
  reduced challenge, the clamped first half of the hash, and the nonce.
\<close>

theorem Sign_sign:
  assumes "is_hex_text 32 PrivateKeyText" and "is_hex_text 32 PublicKeyText"
    and "sizes_respected cs" and "length signature = signatureSize"
  shows "Some (Sign cs u w signature message PublicKeyText PrivateKeyText) =
         sign cs message PublicKeyText PrivateKeyText"
proof -
  have "map (\<lambda>i. scan_value (w i) PublicKeyText i) [0..<32] = map (hex_pair PublicKeyText) [0..<32]"
    using assms(2) by (simp add: scan_value_hex)
  then show ?thesis
    by (simp only: Sign_unfold [OF assms(1,3,4)] sign_def hexDecode_reversed [OF assms(1)]
        hexDecode_forward [OF assms(2)] option.case Let_def if_True if_False)
qed

theorem Sign_sign_witness:
  "is_hex_text 32 demo_private \<and> is_hex_text 32 demo_public \<and> sizes_respected demo \<and>
   sign demo demo_message demo_public demo_private =
     Some [0, 155, 54, 209, 108, 7, 162, 61, 216, 115, 14, 169, 68, 223, 122, 21,
           176, 75, 230, 129, 28, 183, 82, 237, 136, 35, 190, 89, 244, 143, 42, 197,
           243, 15, 77, 13, 79, 19, 89, 33, 107, 55, 133, 85, 167, 123, 209, 169, 3,
           223, 61, 29, 127, 99, 201, 177, 27, 7, 117, 101, 215, 203, 65, 57]"
proof -
  have "Sign demo no_value no_value (replicate 64 0) demo_message demo_public demo_private =
        [0, 155, 54, 209, 108, 7, 162, 61, 216, 115, 14, 169, 68, 223, 122, 21,
         176, 75, 230, 129, 28, 183, 82, 237, 136, 35, 190, 89, 244, 143, 42, 197,
         243, 15, 77, 13, 79, 19, 89, 33, 107, 55, 133, 85, 167, 123, 209, 169, 3,
         223, 61, 29, 127, 99, 201, 177, 27, 7, 117, 101, 215, 203, 65, 57]"
    by code_simp
  with Sign_sign [OF demo_private_hex demo_public_hex demo_sizes demo_buffer,
      of no_value no_value demo_message]
  show ?thesis
    using demo_private_hex demo_public_hex demo_sizes by simp
qed

subsection \<open>C2: what \<^verbatim>\<open>createPublicKey\<close> computes\<close>

text \<open>
  C2. For every private key text of 64 hexadecimal digits the string that
  \<^verbatim>\<open>createPublicKey\<close> leaves in \<^verbatim>\<open>public_key\<close> is the hex encoding (not
  reversed) of the encoded point of the clamped first half of the hash of the private
  key bytes, the text being decoded in reversed byte order.
\<close>

theorem createPublicKey_derivePublicKey:
  assumes "is_hex_text 32 PrivateKeyText" and "sizes_respected cs"
  shows "Some (c_string (createPublicKey cs u public_key PrivateKeyText)) =
         derivePublicKey cs PrivateKeyText"
proof -
  let ?a = "clamp (take 32 (Hash512 cs (map (\<lambda>i. hex_pair PrivateKeyText (32 - 1 - i)) [0..<32])))"
  let ?enc = "ge_p3_tobytes cs (ge_scalarmult_base cs ?a)"
  have len: "length ?enc = 32"
    using assms(2) by (simp add: sizes_respected_def)
  have "createPublicKey cs u public_key PrivateKeyText = sprintf_loop 32 ?enc public_key"
    by (simp only: createPublicKey_def Let_def createPublicKey_scalar_hex [OF assms]
        publicKeySize_def)
  also have "\<dots> = hexEncode (take 32 ?enc) @ NUL # drop (2 * 32 + 1) public_key"
    using len by (intro sprintf_loop_hexEncode) simp_all
  finally have "c_string (createPublicKey cs u public_key PrivateKeyText) = hexEncode ?enc"
    using len by (simp only: c_string_hexEncode take_all order_refl)
  then show ?thesis
    by (simp add: derivePublicKey_def hexDecode_reversed [OF assms(1)] Let_def)
qed

theorem createPublicKey_derivePublicKey_witness:
  "is_hex_text 32 demo_private \<and> sizes_respected demo \<and>
   derivePublicKey demo demo_private =
     Some ''a958f38e29c45ffa9530cb66019c37d26d08a33ed9740faa45e07b16b14ce782''"
proof -
  have "c_string (createPublicKey demo no_value (replicate 65 NUL) demo_private) =
        ''a958f38e29c45ffa9530cb66019c37d26d08a33ed9740faa45e07b16b14ce782''"
    by code_simp
  with createPublicKey_derivePublicKey [OF demo_private_hex demo_sizes,
      of no_value "replicate 65 NUL"]
  show ?thesis
    using demo_private_hex demo_sizes by simp
qed

subsection \<open>C3: texts that are not 64 hexadecimal digits\<close>

text \<open>
  C3 says that a key text of the wrong length, or with a character that is no
  hexadecimal digit, makes the decoding in \<^verbatim>\<open>createPublicKey\<close> and \<^verbatim>\<open>Sign\<close> report
  an error. The file has no such path: the functions return \<^verbatim>\<open>void\<close>, and the result
  of \<^verbatim>\<open>sscanf\<close> is never looked at. For the 63-character text below the
  specification's decoding is an error, while the loop of the file yields 32 bytes, the
  lone last digit \<^verbatim>\<open>e\<close> giving the byte 14, and \<^verbatim>\<open>createPublicKey\<close> returns a key
  text. For the text that starts with \<^verbatim>\<open>g\<close> the first pair matches nothing and the
  byte is what the variable \<^verbatim>\<open>value\<close> happened to hold (0 here).
\<close>

theorem decode_error_counterexample:
  "hexDecode 32 demo_private_63 True = None \<and>
   derivePublicKey demo demo_private_63 = None \<and>
   scan_reversed no_value privateKeyPartSize demo_private_63 (replicate privateKeyPartSize 0) =
     [14, 76, 112, 215, 129, 4, 235, 17, 188, 215, 62, 189, 197, 18, 254, 188,
      143, 188, 235, 54, 163, 112, 201, 87, 255, 126, 38, 98, 48, 187, 93, 87] \<and>
   c_string (createPublicKey demo no_value (replicate 65 NUL) demo_private_63) =
     ''49fd9833ce69049f3ad5700ba641dc7712ad48e37e19b44fea8520bb56f18c27'' \<and>
   hexDecode 32 demo_private_g True = None \<and>
   scan_reversed no_value privateKeyPartSize demo_private_g (replicate privateKeyPartSize 0) =
     [237, 76, 112, 215, 129, 4, 235, 17, 188, 215, 62, 189, 197, 18, 254, 188,
      143, 188, 235, 54, 163, 112, 201, 87, 255, 126, 38, 98, 48, 187, 93, 0]"
proof -
  have "hexDecode 32 demo_private_63 True = None"
    by (simp add: hexDecode_def is_hex_text_def demo_private_63_def)
  moreover have "derivePublicKey demo demo_private_63 = None"
    by (simp add: derivePublicKey_def hexDecode_def is_hex_text_def demo_private_63_def)
  moreover have
    "scan_reversed no_value privateKeyPartSize demo_private_63 (replicate privateKeyPartSize 0) =
     [14, 76, 112, 215, 129, 4, 235, 17, 188, 215, 62, 189, 197, 18, 254, 188,
      143, 188, 235, 54, 163, 112, 201, 87, 255, 126, 38, 98, 48, 187, 93, 87]"
    by code_simp
  moreover have
    "c_string (createPublicKey demo no_value (replicate 65 NUL) demo_private_63) =
     ''49fd9833ce69049f3ad5700ba641dc7712ad48e37e19b44fea8520bb56f18c27''"
    by code_simp
  moreover have "hexDecode 32 demo_private_g True = None"
    by (simp add: hexDecode_def is_hex_text_def demo_private_g_def is_hex_char_def
        xdigit_value_def)
  moreover have
    "scan_reversed no_value privateKeyPartSize demo_private_g (replicate privateKeyPartSize 0) =
     [237, 76, 112, 215, 129, 4, 235, 17, 188, 215, 62, 189, 197, 18, 254, 188,
      143, 188, 235, 54, 163, 112, 201, 87, 255, 126, 38, 98, 48, 187, 93, 0]"
    by code_simp
  ultimately show ?thesis
    by (simp only: simp_thms)
qed

text \<open>
  C3 as amended. For a key text of 63 hexadecimal digits the decoding in
  \<^verbatim>\<open>createPublicKey\<close> and \<^verbatim>\<open>Sign\<close> reports no decode error, although the
  specification's decoding of the text is one: both loops fill the missing digit with
  zero, decoding the text to the bytes of the 64-digit text with a 0 put before its
  last digit, and \<^verbatim>\<open>createPublicKey\<close> and \<^verbatim>\<open>Sign\<close> return what they return for
  that 64-digit text.
\<close>

theorem short_text_zero_filled:
  assumes "is_hex_text 32 (t @ [CHR ''0'', c])"
  shows "hexDecode 32 (t @ [c]) True = None \<and>
         hexDecode 32 (t @ [c]) False = None \<and>
         Some (scan_reversed u privateKeyPartSize (t @ [c]) (replicate privateKeyPartSize 0)) =
           hexDecode 32 (t @ [CHR ''0'', c]) True \<and>
         Some (scan_forward w publicKeySize (t @ [c]) (replicate publicKeySize 0)) =
           hexDecode 32 (t @ [CHR ''0'', c]) False \<and>
         createPublicKey cs u public_key (t @ [c]) =
           createPublicKey cs u' public_key (t @ [CHR ''0'', c]) \<and>
         Sign cs u w signature message PublicKeyText (t @ [c]) =
           Sign cs u' w signature message PublicKeyText (t @ [CHR ''0'', c]) \<and>
         Sign cs u w signature message (t @ [c]) PrivateKeyText =
           Sign cs u w' signature message (t @ [CHR ''0'', c]) PrivateKeyText"
proof -
  let ?full = "t @ [CHR ''0'', c]"
  have lt: "length t = 62"
    using assms by (simp add: is_hex_text_def)
  have none: "hexDecode 32 (t @ [c]) True = None" "hexDecode 32 (t @ [c]) False = None"
    using lt by (simp_all add: hexDecode_def is_hex_text_def)
  have short_vals: "\<And>a. map (\<lambda>i. scan_value (a i) (t @ [c]) i) [0..<32] =
                         map (hex_pair ?full) [0..<32]"
    using scan_value_zero_fill [OF assms] scan_value_hex [OF assms] by simp
  have full_vals: "\<And>a. map (\<lambda>i. scan_value (a i) ?full i) [0..<32] =
                        map (hex_pair ?full) [0..<32]"
    using scan_value_hex [OF assms] by simp
  have rev_short: "\<And>a. scan_reversed a privateKeyPartSize (t @ [c]) (replicate privateKeyPartSize 0) =
                       rev (map (hex_pair ?full) [0..<32])"
    by (simp add: scan_reversed_map privateKeyPartSize_def short_vals)
  have rev_full: "\<And>b. scan_reversed b privateKeyPartSize ?full (replicate privateKeyPartSize 0) =
                       rev (map (hex_pair ?full) [0..<32])"
    by (simp add: scan_reversed_map privateKeyPartSize_def full_vals)
  have fwd_short: "\<And>a bytes. length bytes = 32 \<Longrightarrow>
      scan_forward a publicKeySize (t @ [c]) bytes = map (hex_pair ?full) [0..<32]"
    by (simp add: scan_forward_map publicKeySize_def short_vals)
  have fwd_full: "\<And>a bytes. length bytes = 32 \<Longrightarrow>
      scan_forward a publicKeySize ?full bytes = map (hex_pair ?full) [0..<32]"
    by (simp add: scan_forward_map publicKeySize_def full_vals)
  have r: "Some (scan_reversed u privateKeyPartSize (t @ [c]) (replicate privateKeyPartSize 0)) =
           hexDecode 32 ?full True"
    unfolding rev_short hexDecode_reversed [OF assms]
    by (simp only: rev_map_upt)
  have f: "Some (scan_forward w publicKeySize (t @ [c]) (replicate publicKeySize 0)) =
           hexDecode 32 ?full False"
    unfolding hexDecode_forward [OF assms]
    using fwd_short [of "replicate publicKeySize 0" w] by (simp add: publicKeySize_def)
  have pk: "createPublicKey cs u public_key (t @ [c]) = createPublicKey cs u' public_key ?full"
    by (simp only: createPublicKey_def createPublicKey_scalar_def rev_short rev_full)
  have s1: "Sign cs u w signature message PublicKeyText (t @ [c]) =
            Sign cs u' w signature message PublicKeyText ?full"
    by (simp only: Sign_def Sign_scalar_def Sign_privateKeyHash_def rev_short rev_full)
  have lb: "length (scan_reversed u privateKeyPartSize PrivateKeyText
              (replicate privateKeyPartSize 0)) = 32"
    by (simp add: scan_reversed_map privateKeyPartSize_def)
  have s2: "Sign cs u w signature message (t @ [c]) PrivateKeyText =
            Sign cs u w' signature message ?full PrivateKeyText"
    by (simp only: Sign_def Let_def fwd_short [OF lb] fwd_full [OF lb])
  show ?thesis
    using none r f pk s1 s2 by (simp only: simp_thms)
qed

theorem short_text_zero_filled_witness:
  "is_hex_text 32 ''575dbb3062267eff57c970a336ebbc8fbcfe12c5bd3ed7bc11eb0481d7704c0e'' \<and>
   hexDecode 32 demo_private_63 True = None \<and>
   Some (scan_reversed no_value privateKeyPartSize demo_private_63 (replicate privateKeyPartSize 0)) =
     hexDecode 32 ''575dbb3062267eff57c970a336ebbc8fbcfe12c5bd3ed7bc11eb0481d7704c0e'' True \<and>
   createPublicKey demo no_value (replicate 65 NUL) demo_private_63 =
     createPublicKey demo other_value (replicate 65 NUL)
       ''575dbb3062267eff57c970a336ebbc8fbcfe12c5bd3ed7bc11eb0481d7704c0e'' \<and>
   Sign demo no_value no_value (replicate 64 0) demo_message demo_public demo_private_63 =
     Sign demo other_value no_value (replicate 64 0) demo_message demo_public
       ''575dbb3062267eff57c970a336ebbc8fbcfe12c5bd3ed7bc11eb0481d7704c0e''"
proof -
  have long_text: "''575dbb3062267eff57c970a336ebbc8fbcfe12c5bd3ed7bc11eb0481d7704c0e'' =
        ''575dbb3062267eff57c970a336ebbc8fbcfe12c5bd3ed7bc11eb0481d7704c'' @ [CHR ''0'', CHR ''e'']"
    and short_text: "demo_private_63 =
        ''575dbb3062267eff57c970a336ebbc8fbcfe12c5bd3ed7bc11eb0481d7704c'' @ [CHR ''e'']"
    by (simp_all add: demo_private_63_def)
  have hex: "is_hex_text 32
      (''575dbb3062267eff57c970a336ebbc8fbcfe12c5bd3ed7bc11eb0481d7704c'' @ [CHR ''0'', CHR ''e''])"
    by (simp add: is_hex_text_def is_hex_char_def xdigit_value_def)
  from short_text_zero_filled [OF hex, where u = no_value and u' = other_value
      and w = no_value and w' = no_value and cs = demo and public_key = "replicate 65 NUL"
      and signature = "replicate 64 0" and message = demo_message
      and PublicKeyText = demo_public and PrivateKeyText = demo_private] hex
  show ?thesis
    unfolding long_text short_text by (simp only: simp_thms)
qed

subsection \<open>C4: the two clamped scalars\<close>



subsection \<open>C5: \<^verbatim>\<open>Sign\<close> is deterministic\<close>

text \<open>
  C5. For every message and every pair of key texts of 64 hexadecimal digits, the
  signature depends on the message and the two texts only: whatever the two
  uninitialised variables \<^verbatim>\<open>value\<close> hold, and whatever the 64-byte array
  \<^verbatim>\<open>signature\<close> held before, two calls leave the same 64 bytes.
\<close>

theorem Sign_deterministic:
  assumes "is_hex_text 32 PrivateKeyText" and "is_hex_text 32 PublicKeyText"
    and "sizes_respected cs"
    and "length signature = signatureSize" and "length signature' = signatureSize"
  shows "Sign cs u w signature message PublicKeyText PrivateKeyText =
         Sign cs u' w' signature' message PublicKeyText PrivateKeyText"
proof -
  have "map (\<lambda>i. scan_value (w i) PublicKeyText i) [0..<32] =
        map (\<lambda>i. scan_value (w' i) PublicKeyText i) [0..<32]"
    using assms(2) by (simp add: scan_value_hex)
  then show ?thesis
    by (simp only: Sign_unfold [OF assms(1,3,4)] Sign_unfold [OF assms(1,3,5)])
qed

theorem Sign_deterministic_witness:
  "is_hex_text 32 demo_private \<and> is_hex_text 32 demo_public \<and> sizes_respected demo \<and>
   Sign demo no_value no_value (replicate 64 0) demo_message demo_public demo_private =
   Sign demo other_value other_value (replicate 64 255) demo_message
     demo_public demo_private"
proof -
  have "length (replicate 64 (255::byte)) = signatureSize"
    by (simp add: signatureSize_def)
  from Sign_deterministic [OF demo_private_hex demo_public_hex demo_sizes demo_buffer this]
  show ?thesis
    using demo_private_hex demo_public_hex demo_sizes by simp
qed

subsection \<open>C6: the lengths of the results\<close>

text \<open>
  C6 asks for exactly 64 hexadecimal digits from \<^verbatim>\<open>createPrivateKey\<close> whatever the
  seed, exactly 64 hexadecimal digits from \<^verbatim>\<open>createPublicKey\<close> and exactly 64 bytes
  from \<^verbatim>\<open>Sign\<close> for valid key texts.

  \<^verbatim>\<open>createPrivateKey\<close> does not get there: its local array has 64 cells, and round 31
  of the printing loop writes two digits at the indices 62 and 63 and the terminator at
  index 64, outside the array, on every call. With one more cell the loop would leave
  the 64 digits of the first half of the digest.

  The other two hold. The string that \<^verbatim>\<open>createPublicKey\<close> leaves has exactly 64
  hexadecimal digits. \<^verbatim>\<open>Sign\<close> writes the cells 0 to 63 of \<^verbatim>\<open>signature\<close>, all of
  them and no other: the first 64 cells afterwards do not depend on what the array held,
  and the cells behind them are as they were.
\<close>

theorem output_lengths:
  assumes "sizes_respected cs"
    and "is_hex_text 32 PrivateKeyText" and "is_hex_text 32 PublicKeyText"
    and "64 \<le> length signature" and "64 \<le> length signature'"
  shows "createPrivateKey cs seed out_private_key = Inl (Out_of_bounds 64) \<and>
         sprintf_loop_local 32 (keccak cs (take seedSize seed) privateKeySize) (replicate 65 NUL) =
           Inr (hexEncode (take 32 (keccak cs (take seedSize seed) privateKeySize)) @ [NUL]) \<and>
         is_hex_text 32 (c_string (createPublicKey cs u public_key PrivateKeyText)) \<and>
         length (take 64 (Sign cs u w signature message PublicKeyText PrivateKeyText)) = 64 \<and>
         take 64 (Sign cs u w signature message PublicKeyText PrivateKeyText) =
           take 64 (Sign cs u w signature' message PublicKeyText PrivateKeyText) \<and>
         drop 64 (Sign cs u w signature message PublicKeyText PrivateKeyText) =
           drop 64 signature"
proof -
  have "length (keccak cs (take seedSize seed) privateKeySize) = 64"
    using assms(1) by (simp add: sizes_respected_def privateKeySize_def)
  then have p2: "sprintf_loop_local 32 (keccak cs (take seedSize seed) privateKeySize)
                   (replicate 65 NUL) =
                 Inr (hexEncode (take 32 (keccak cs (take seedSize seed) privateKeySize)) @ [NUL])"
    by (intro sprintf_loop_local_65) simp
  let ?enc = "ge_p3_tobytes cs (ge_scalarmult_base cs (createPublicKey_scalar cs u PrivateKeyText))"
  have "length ?enc = 32"
    using assms(1) by (simp add: sizes_respected_def)
  then have q: "is_hex_text 32 (c_string (createPublicKey cs u public_key PrivateKeyText))"
    using is_hex_text_hexEncode [of ?enc]
    by (simp add: c_string_createPublicKey [OF assms(1)])
  have sizes: "\<And>p. length (ge_p3_tobytes cs p) = 32" "\<And>a b c. length (sc_muladd cs a b c) = 32"
    using assms(1) by (simp_all add: sizes_respected_def)
  have s: "length (take 64 (Sign cs u w signature message PublicKeyText PrivateKeyText)) = 64 \<and>
           take 64 (Sign cs u w signature message PublicKeyText PrivateKeyText) =
             take 64 (Sign cs u w signature' message PublicKeyText PrivateKeyText) \<and>
           drop 64 (Sign cs u w signature message PublicKeyText PrivateKeyText) =
             drop 64 signature"
    using sizes
    by (simp add: Sign_unfold_buffer [OF assms(2,1,4)] Sign_unfold_buffer [OF assms(2,1,5)] Let_def)
  show ?thesis
    using createPrivateKey_out_of_bounds [of cs seed out_private_key] p2 q s
    by blast
qed

theorem output_lengths_witness:
  "sizes_respected demo \<and> is_hex_text 32 demo_private \<and> is_hex_text 32 demo_public \<and>
   createPrivateKey demo (replicate 32 0) (replicate 64 CHR ''x'') = Inl (Out_of_bounds 64) \<and>
   is_hex_text 32 (c_string (createPublicKey demo no_value (replicate 65 NUL) demo_private)) \<and>
   take 64 (Sign demo no_value no_value (replicate 66 0) demo_message demo_public demo_private) =
     Sign demo no_value no_value (replicate 64 255) demo_message demo_public demo_private \<and>
   drop 64 (Sign demo no_value no_value (replicate 66 0) demo_message demo_public demo_private) =
     [0, 0]"
proof -
  have a: "64 \<le> length (replicate 66 (0::byte))" and b: "64 \<le> length (replicate 64 (255::byte))"
    by simp_all
  have "createPrivateKey demo (replicate 32 0) (replicate 64 CHR ''x'') = Inl (Out_of_bounds 64)"
    by code_simp
  moreover have "length (Sign demo no_value no_value (replicate 64 255) demo_message demo_public
      demo_private) = 64"
    by (rule length_Sign [OF demo_sizes]) (simp add: signatureSize_def)
  moreover note output_lengths [OF demo_sizes demo_private_hex demo_public_hex a b,
      where u = no_value and w = no_value and public_key = "replicate 65 NUL"
      and message = demo_message]
  ultimately show ?thesis
    using demo_sizes demo_private_hex demo_public_hex by (simp add: numeral_2_eq_2)
qed

subsection \<open>C7: the hex codec\<close>

text \<open>
  C7. For every byte array \<open>b\<close>, of any length: the loop over a public key text,
  run on the string that the printing loop produces from \<open>b\<close>, gives \<open>b\<close> back, and
  the loop over a private key text gives the bytes of \<open>b\<close> in reverse order; the same
  holds of the specification's \<open>hexDecode\<close> and \<open>hexEncode\<close>. The printed string is
  \<open>hexEncode b\<close>: for each byte the digit of its high four bits, then the digit of its
  low four bits, in lowercase.
\<close>

theorem hex_codec_inverse:
  "scan_forward u (length b) (c_string (sprintf_loop (length b) b out)) (replicate (length b) 0) = b \<and>
   scan_reversed u (length b) (c_string (sprintf_loop (length b) b out)) (replicate (length b) 0) =
     rev b \<and>
   hexDecode (length b) (hexEncode b) False = Some b \<and>
   hexDecode (length b) (hexEncode b) True = Some (rev b) \<and>
   (b \<noteq> [] \<longrightarrow> c_string (sprintf_loop (length b) b out) = hexEncode b) \<and>
   hexEncode (x # b) = hex_digit (unat x div 16) # hex_digit (unat x mod 16) # hexEncode b \<and>
   list_all is_lower_hex (hexEncode b)"
proof -
  have pairs: "map (hex_pair (hexEncode b)) [0..<length b] = b"
    by (rule nth_equalityI) (simp_all add: hex_pair_hexEncode)
  have f: "hexDecode (length b) (hexEncode b) False = Some b"
    by (simp only: hexDecode_forward [OF is_hex_text_hexEncode] pairs)
  have "map (\<lambda>i. hex_pair (hexEncode b) (length b - 1 - i)) [0..<length b] = rev b"
    by (simp only: rev_map_upt [symmetric] pairs)
  then have r: "hexDecode (length b) (hexEncode b) True = Some (rev b)"
    by (simp only: hexDecode_reversed [OF is_hex_text_hexEncode])
  show ?thesis
  proof (cases "b = []")
    case True
    then show ?thesis
      using f r
      by (simp add: scan_forward_def scan_reversed_def hexEncode_Cons hexEncode_Nil)
  next
    case False
    then have "c_string (sprintf_loop (length b) b out) = hexEncode b"
      by (simp add: c_string_sprintf_loop)
    then show ?thesis
      using f r
      by (simp add: scan_forward_hexEncode scan_reversed_hexEncode hexEncode_Cons
          is_lower_hex_hexEncode)
  qed
qed

theorem hex_codec_inverse_witness:
  "[0xde, 0xad, 0x0f :: byte] \<noteq> [] \<and>
   c_string (sprintf_loop 3 [0xde, 0xad, 0x0f] (replicate 8 CHR ''x'')) = ''dead0f'' \<and>
   scan_forward no_value 3 ''dead0f'' [0, 0, 0] = [0xde, 0xad, 0x0f] \<and>
   scan_reversed no_value 3 ''dead0f'' [0, 0, 0] = [0x0f, 0xad, 0xde]"
proof -
  let ?b = "[0xde, 0xad, 0x0f :: byte]"
  let ?s = "c_string (sprintf_loop 3 ?b (replicate 8 CHR ''x''))"
  have e: "hexEncode ?b = ''dead0f''"
    by (simp add: hexEncode_def hex_digit_def)
  have ne: "?b \<noteq> []"
    by simp
  have l: "length ?b = 3"
    by simp
  note h = hex_codec_inverse [of no_value ?b "replicate 8 CHR ''x''" 0, unfolded l e]
  from h ne have s: "?s = ''dead0f''"
    by blast
  from h have "scan_forward no_value 3 ?s (replicate 3 0) = ?b"
    and "scan_reversed no_value 3 ?s (replicate 3 0) = rev ?b"
    by blast+
  then have "scan_forward no_value 3 ''dead0f'' [0, 0, 0] = ?b"
    and "scan_reversed no_value 3 ''dead0f'' [0, 0, 0] = [0x0f, 0xad, 0xde]"
    unfolding s by (simp_all add: numeral_3_eq_3)
  with s ne show ?thesis
    by simp
qed

subsection \<open>C8: \<^verbatim>\<open>SHA256_hash\<close>\<close>

text \<open>
  C8. For every input, the empty one included, the string that \<^verbatim>\<open>SHA256_hash\<close>
  leaves in \<^verbatim>\<open>out\<close> is the hex encoding of the 32-byte digest of the input: 64
  lowercase hexadecimal digits. The function has no state (the result depends on the
  input only, not on what \<^verbatim>\<open>out\<close> held) and no failing path.
\<close>

theorem SHA256_hash_digest:
  assumes "sizes_respected cs"
  shows "c_string (SHA256_hash cs out input) = hexEncode (Hash256 cs input) \<and>
         length (c_string (SHA256_hash cs out input)) = 64 \<and>
         list_all is_lower_hex (c_string (SHA256_hash cs out input)) \<and>
         c_string (SHA256_hash cs out [])  = hexEncode (Hash256 cs [])"
proof -
  have len: "\<And>x. length (keccak cs x 32) = 32"
    using assms by (simp add: sizes_respected_def)
  then have "\<And>x. c_string (SHA256_hash cs out x) = hexEncode (Hash256 cs x)"
    by (simp add: SHA256_hash_def hash_256_Size_def Hash256_def c_string_sprintf_loop)
  then show ?thesis
    using len by (simp add: length_hexEncode is_lower_hex_hexEncode Hash256_def)
qed

theorem SHA256_hash_digest_witness:
  "sizes_respected demo \<and>
   c_string (SHA256_hash demo (replicate 65 CHR ''x'') []) =
     ''0726456483a2c1e0ff1e3d5c7b9ab9d8f71635547392b1d0ef0e2d4c6b8aa9c8'' \<and>
   hexEncode (Hash256 demo []) =
     ''0726456483a2c1e0ff1e3d5c7b9ab9d8f71635547392b1d0ef0e2d4c6b8aa9c8''"
proof -
  have "c_string (SHA256_hash demo (replicate 65 CHR ''x'') []) =
        ''0726456483a2c1e0ff1e3d5c7b9ab9d8f71635547392b1d0ef0e2d4c6b8aa9c8''"
    by code_simp
  with SHA256_hash_digest [OF demo_sizes, of "replicate 65 CHR ''x''" "[]"]
  show ?thesis
    using demo_sizes by simp
qed

subsection \<open>C9: the first half of the signature and the public key text\<close>

text \<open>
  C9. For every message and every private key text of 64 hexadecimal digits, the first
  32 bytes of the signature are the same for any two public key texts, valid or not:
  they are written before the public key text is read. Only bytes 32 to 63 can differ.
\<close>

theorem Sign_R_independent_of_public_key:
  assumes "is_hex_text 32 PrivateKeyText" and "sizes_respected cs"
    and "length signature = signatureSize"
  shows "take 32 (Sign cs u w signature message PublicKeyText PrivateKeyText) =
         take 32 (Sign cs u w' signature message PublicKeyText' PrivateKeyText)"
proof -
  have "\<And>p. length (ge_p3_tobytes cs p) = 32"
    using assms(2) by (simp add: sizes_respected_def)
  then show ?thesis
    by (simp add: Sign_unfold [OF assms] Let_def)
qed

theorem Sign_R_independent_of_public_key_witness:
  "is_hex_text 32 demo_private \<and> sizes_respected demo \<and>
   take 32 (Sign demo no_value no_value (replicate 64 0) demo_message demo_public demo_private) =
   take 32 (Sign demo no_value other_value (replicate 64 0) demo_message ''zz'' demo_private) \<and>
   Sign demo no_value no_value (replicate 64 0) demo_message demo_public demo_private \<noteq>
   Sign demo no_value no_value (replicate 64 0) demo_message ''zz'' demo_private"
proof -
  have "Sign demo no_value no_value (replicate 64 0) demo_message demo_public demo_private \<noteq>
        Sign demo no_value no_value (replicate 64 0) demo_message ''zz'' demo_private"
    by code_simp
  with Sign_R_independent_of_public_key [OF demo_private_hex demo_sizes demo_buffer,
      of no_value no_value demo_message demo_public other_value "''zz''"]
  show ?thesis
    using demo_private_hex demo_sizes by simp
qed

subsection \<open>C10: letter case\<close>

text \<open>
  C10. Two texts of 64 hexadecimal digits that differ only in the case of their
  letters are decoded to the same bytes by both loops, so \<^verbatim>\<open>createPublicKey\<close> gives
  the same result for two such private key texts, and \<^verbatim>\<open>Sign\<close> the same signature
  for two such pairs of texts. What \<^verbatim>\<open>createPublicKey\<close> prints is in lowercase.
\<close>

theorem decoding_ignores_case:
  assumes "is_hex_text 32 PrivateKeyText" and "same_up_to_case PrivateKeyText PrivateKeyText'"
    and "is_hex_text 32 PublicKeyText" and "same_up_to_case PublicKeyText PublicKeyText'"
    and "sizes_respected cs" and "length signature = signatureSize"
  shows "hexDecode 32 PrivateKeyText True = hexDecode 32 PrivateKeyText' True \<and>
         hexDecode 32 PublicKeyText False = hexDecode 32 PublicKeyText' False \<and>
         scan_reversed u privateKeyPartSize PrivateKeyText (replicate privateKeyPartSize 0) =
           scan_reversed u' privateKeyPartSize PrivateKeyText' (replicate privateKeyPartSize 0) \<and>
         createPublicKey cs u public_key PrivateKeyText =
           createPublicKey cs u' public_key PrivateKeyText' \<and>
         Sign cs u w signature message PublicKeyText PrivateKeyText =
           Sign cs u' w' signature message PublicKeyText' PrivateKeyText' \<and>
         list_all is_lower_hex (c_string (createPublicKey cs u public_key PrivateKeyText))"
proof -
  have priv': "is_hex_text 32 PrivateKeyText'"
    by (rule same_up_to_case_hex_text [OF assms(2,1)])
  have pub': "is_hex_text 32 PublicKeyText'"
    by (rule same_up_to_case_hex_text [OF assms(4,3)])
  have kp: "\<And>i. i < 32 \<Longrightarrow> hex_pair PrivateKeyText i = hex_pair PrivateKeyText' i"
    by (rule same_up_to_case_hex_pair [OF assms(2,1)])
  have ap: "\<And>i. i < 32 \<Longrightarrow> hex_pair PublicKeyText i = hex_pair PublicKeyText' i"
    by (rule same_up_to_case_hex_pair [OF assms(4,3)])
  have k: "map (\<lambda>i. hex_pair PrivateKeyText (32 - 1 - i)) [0..<32] =
           map (\<lambda>i. hex_pair PrivateKeyText' (32 - 1 - i)) [0..<32]"
    using kp by simp
  have a: "map (hex_pair PublicKeyText) [0..<32] = map (hex_pair PublicKeyText') [0..<32]"
    using ap by simp
  have d1: "hexDecode 32 PrivateKeyText True = hexDecode 32 PrivateKeyText' True"
    by (simp only: hexDecode_reversed [OF assms(1)] hexDecode_reversed [OF priv'] k)
  have d2: "hexDecode 32 PublicKeyText False = hexDecode 32 PublicKeyText' False"
    by (simp only: hexDecode_forward [OF assms(3)] hexDecode_forward [OF pub'] a)
  have s: "scan_reversed u privateKeyPartSize PrivateKeyText (replicate privateKeyPartSize 0) =
           scan_reversed u' privateKeyPartSize PrivateKeyText' (replicate privateKeyPartSize 0)"
    by (simp only: private_key_bytes_hex [OF assms(1)] private_key_bytes_hex [OF priv'] k)
  have pk: "createPublicKey cs u public_key PrivateKeyText =
            createPublicKey cs u' public_key PrivateKeyText'"
    by (simp only: createPublicKey_def createPublicKey_scalar_def s)
  have av: "map (\<lambda>i. scan_value (w i) PublicKeyText i) [0..<32] =
            map (\<lambda>i. scan_value (w' i) PublicKeyText' i) [0..<32]"
    using ap by (simp add: scan_value_hex [OF assms(3)] scan_value_hex [OF pub'])
  have sg: "Sign cs u w signature message PublicKeyText PrivateKeyText =
            Sign cs u' w' signature message PublicKeyText' PrivateKeyText'"
    by (simp only: Sign_unfold [OF assms(1,5,6)] Sign_unfold [OF priv' assms(5,6)] k av)
  have lower: "list_all is_lower_hex (c_string (createPublicKey cs u public_key PrivateKeyText))"
    by (simp only: c_string_createPublicKey [OF assms(5)] is_lower_hex_hexEncode)
  show ?thesis
    using d1 d2 s pk sg lower by (simp only: simp_thms)
qed

theorem decoding_ignores_case_witness:
  "is_hex_text 32 demo_private \<and> same_up_to_case demo_private demo_private_upper \<and>
   is_hex_text 32 demo_public \<and> same_up_to_case demo_public demo_public_upper \<and>
   sizes_respected demo \<and> demo_private \<noteq> demo_private_upper \<and>
   c_string (createPublicKey demo no_value (replicate 65 NUL) demo_private_upper) =
     ''a958f38e29c45ffa9530cb66019c37d26d08a33ed9740faa45e07b16b14ce782'' \<and>
   Sign demo no_value no_value (replicate 64 0) demo_message demo_public demo_private =
   Sign demo other_value other_value (replicate 64 0) demo_message demo_public_upper
     demo_private_upper"
proof -
  have "c_string (createPublicKey demo no_value (replicate 65 NUL) demo_private) =
        ''a958f38e29c45ffa9530cb66019c37d26d08a33ed9740faa45e07b16b14ce782''"
    by code_simp
  moreover have "demo_private \<noteq> demo_private_upper"
    by (simp add: demo_private_def demo_private_upper_def)
  moreover note decoding_ignores_case [OF demo_private_hex demo_private_same_case
      demo_public_hex demo_public_same_case demo_sizes demo_buffer,
      where u = no_value and u' = no_value and public_key = "replicate 65 NUL"]
    decoding_ignores_case [OF demo_private_hex demo_private_same_case
      demo_public_hex demo_public_same_case demo_sizes demo_buffer,
      where u = no_value and u' = other_value and w = no_value and w' = other_value
      and message = demo_message]
  ultimately show ?thesis
    using demo_private_hex demo_private_same_case demo_public_hex demo_public_same_case
      demo_sizes
    by simp
qed

end
